theory Spec2Isabelle
  imports Main "HOL-Library.Word"
begin

section \<open>The two DWARF fixtures: \<^verbatim>\<open>fibonacci.c\<close> and \<^verbatim>\<open>c-with-struct.c\<close>\<close>

text \<open>
  Both files are compiled for \<^verbatim>\<open>wasm32\<close> (see the compile line in
  \<^verbatim>\<open>c-with-struct.c\<close>), where \<^verbatim>\<open>int\<close> has 32 bits, a pointer is a 32-bit
  address and \<^verbatim>\<open>char\<close> is one byte. An \<^verbatim>\<open>int\<close> is a \<open>32 word\<close>: \<open>+\<close> wraps around
  as the target's \<^verbatim>\<open>i32.add\<close> does, \<open><s\<close> is the signed comparison and \<open>sint\<close> reads
  the two's complement value.
\<close>

type_synonym int32 = "32 word"
type_synonym addr = "32 word"
type_synonym byte = "8 word"

subsection \<open>\<^verbatim>\<open>fibonacci.c\<close>: \<^verbatim>\<open>fib\<close>\<close>

text \<open>
  The only failure the C text of \<^verbatim>\<open>fib\<close> could have is a read of the local \<^verbatim>\<open>a\<close>,
  declared without an initialiser, before it is assigned.
\<close>

datatype error = UninitRead

text \<open>
  The locals of \<^verbatim>\<open>fib\<close>. \<^verbatim>\<open>int a, b = 0, c = 1;\<close> leaves \<^verbatim>\<open>a\<close> without a value
  (\<open>None\<close>) and initialises \<^verbatim>\<open>b\<close> and \<^verbatim>\<open>c\<close>; \<^verbatim>\<open>i\<close> is the loop counter.
\<close>

record fib_state =
  a :: "int32 option"
  b :: int32
  c :: int32
  i :: int32

text \<open>
  One execution of the loop body followed by the increment:
  \<^verbatim>\<open>a = b; b = c; c = a + b; ++i\<close>. The read of \<^verbatim>\<open>a\<close> in the third assignment
  fails when \<^verbatim>\<open>a\<close> holds no value.
\<close>

definition fib_body :: "fib_state \<Rightarrow> error + fib_state" where
  "fib_body s =
     (let s1 = s\<lparr>a := Some (b s)\<rparr>;
          s2 = s1\<lparr>b := c s1\<rparr>
      in case a s2 of
           None \<Rightarrow> Inl UninitRead
         | Some av \<Rightarrow> Inr (s2\<lparr>c := av + b s2, i := i s2 + 1\<rparr>))"

text \<open>
  \<^verbatim>\<open>for (...; i < n; ++i) { ... }\<close> from a given state. Nothing is assumed about
  termination: \<open>None\<close> is a loop that runs forever.
\<close>

partial_function (option) fib_loop :: "int32 \<Rightarrow> fib_state \<Rightarrow> (error + fib_state) option" where
  "fib_loop n s =
     (if i s <s n
      then (case fib_body s of Inl e \<Rightarrow> Some (Inl e) | Inr s' \<Rightarrow> fib_loop n s')
      else Some (Inr s))"

declare fib_loop.simps [code]

text \<open>The state in which the loop is entered: \<^verbatim>\<open>int a, b = 0, c = 1;\<close> and \<^verbatim>\<open>int i = 1\<close>.\<close>

definition fib_init :: fib_state where
  "fib_init = \<lparr>a = None, b = 0, c = 1, i = 1\<rparr>"

text \<open>\<^verbatim>\<open>int fib(int n)\<close>: run the loop, then \<^verbatim>\<open>return c\<close>.\<close>

definition fib :: "int32 \<Rightarrow> (error + int32) option" where
  "fib n =
     (case fib_loop n fib_init of
        None \<Rightarrow> None
      | Some (Inl e) \<Rightarrow> Some (Inl e)
      | Some (Inr s) \<Rightarrow> Some (Inr (c s)))"

text \<open>
  The runs of \<^verbatim>\<open>fib\<close> as a relation, one rule for each way the loop can go on
  from a state: the condition fails and the loop is left, the body fails, or the
  body is executed and the run goes on from the state it gives.
\<close>

inductive fib_run :: "int32 \<Rightarrow> fib_state \<Rightarrow> error + fib_state \<Rightarrow> bool" for n :: int32 where
  fib_run_exit: "\<not> i s <s n \<Longrightarrow> fib_run n s (Inr s)"
| fib_run_fail: "i s <s n \<Longrightarrow> fib_body s = Inl e \<Longrightarrow> fib_run n s (Inl e)"
| fib_run_iter: "i s <s n \<Longrightarrow> fib_body s = Inr s' \<Longrightarrow> fib_run n s' r \<Longrightarrow> fib_run n s r"

text \<open>A run of \<^verbatim>\<open>fib(n)\<close> starts in \<open>fib_init\<close> and returns \<^verbatim>\<open>c\<close>.\<close>

inductive fib_returns :: "int32 \<Rightarrow> error + int32 \<Rightarrow> bool" where
  fib_returns_value: "fib_run n fib_init (Inr s) \<Longrightarrow> fib_returns n (Inr (c s))"
| fib_returns_error: "fib_run n fib_init (Inl e) \<Longrightarrow> fib_returns n (Inl e)"

text \<open>
  \<open>k\<close> executions of the loop body one after the other, whatever the loop
  condition says: the measure of the work the loop does.
\<close>

fun fib_iter :: "nat \<Rightarrow> fib_state \<Rightarrow> error + fib_state" where
  "fib_iter 0 s = Inr s"
| "fib_iter (Suc k) s = (case fib_body s of Inl e \<Rightarrow> Inl e | Inr s' \<Rightarrow> fib_iter k s')"

text \<open>
  The sequence of the specification, in its words: \<open>f(1) = f1\<close>, \<open>f(2) = f2\<close> and
  \<open>f(k) = f(k-1) + f(k-2)\<close> from the third term on. The specification takes
  \<open>f1 = 0\<close> and \<open>f2 = 1\<close>. The sequence has no term 0; \<open>seq_from f1 f2 0\<close> is 0.
\<close>

fun seq_from :: "nat \<Rightarrow> nat \<Rightarrow> nat \<Rightarrow> nat" where
  "seq_from f1 f2 0 = 0"
| "seq_from f1 f2 (Suc 0) = f1"
| "seq_from f1 f2 (Suc (Suc 0)) = f2"
| "seq_from f1 f2 (Suc (Suc (Suc k))) = seq_from f1 f2 (Suc (Suc k)) + seq_from f1 f2 (Suc k)"

subsection \<open>\<^verbatim>\<open>fibonacci.c\<close>: \<^verbatim>\<open>main\<close>\<close>

text \<open>
  Modelled from the spec: \<^verbatim>\<open>printf\<close> comes from \<^verbatim>\<open>stdio.h\<close>, which is not part of
  the sources. The spec describes the output as lines of the form
  \<^verbatim>\<open>9th fib: <value>\<close>; the model copies the format string and replaces each
  \<^verbatim>\<open>%d\<close> by the signed decimal rendering of the next argument, the only directive
  that \<^verbatim>\<open>main\<close> uses.
\<close>

definition digit :: "nat \<Rightarrow> char" where
  "digit d = ''0123456789'' ! d"

function dec_nat :: "nat \<Rightarrow> string" where
  "dec_nat m = (if m < 10 then [digit m] else dec_nat (m div 10) @ [digit (m mod 10)])"
  by pat_completeness auto
termination
  by (relation "measure id") auto

definition dec_int :: "int \<Rightarrow> string" where
  "dec_int v = (if v < 0 then CHR ''-'' # dec_nat (nat (- v)) else dec_nat (nat v))"

fun printf :: "string \<Rightarrow> int32 list \<Rightarrow> string" where
  "printf (p # q # fmt) (v # args) =
     (if p = CHR ''%'' \<and> q = CHR ''d''
      then dec_int (sint v) @ printf fmt args
      else p # printf (q # fmt) (v # args))"
| "printf (p # fmt) args = p # printf fmt args"
| "printf [] args = []"

text \<open>
  \<^verbatim>\<open>int main()\<close>, from the text written to standard output so far to the exit
  status and the text afterwards. The locals \<^verbatim>\<open>a\<close> and \<^verbatim>\<open>b\<close> of \<^verbatim>\<open>main\<close> are
  \<open>ma\<close> and \<open>mb\<close> here.
\<close>

definition main :: "string \<Rightarrow> (error + int32 \<times> string) option" where
  "main out0 =
     (case fib 9 of
        None \<Rightarrow> None
      | Some (Inl e) \<Rightarrow> Some (Inl e)
      | Some (Inr ma) \<Rightarrow>
          (let out1 = out0 @ printf ''9th fib: %d\<newline>'' [ma] in
           case fib 5 of
             None \<Rightarrow> None
           | Some (Inl e) \<Rightarrow> Some (Inl e)
           | Some (Inr mb) \<Rightarrow>
               (let out2 = out1 @ printf ''5th fib: %d\<newline>'' [mb] in
                Some (Inr (0, out2)))))"

subsection \<open>\<^verbatim>\<open>c-with-struct.c\<close>\<close>

text \<open>
  \<^verbatim>\<open>struct data_t\<close>. The field \<^verbatim>\<open>id\<close> is \<open>id_buf\<close> here, since \<open>id\<close> is the
  identity function of HOL.
\<close>

record data_t =
  id_buf :: "byte list"
  x :: int32
  y :: int32

text \<open>The memory a pointer refers to: the records stored at each address.\<close>

type_synonym memory = "addr \<Rightarrow> data_t option"

text \<open>\<^verbatim>\<open>int process(void *data) { return 0; }\<close>: the result and the memory afterwards.\<close>

definition process :: "addr \<Rightarrow> memory \<Rightarrow> int32 \<times> memory" where
  "process data mem = (0, mem)"

text \<open>
  The initialisation of a \<^verbatim>\<open>char\<close> array of \<open>cap\<close> elements by a string literal:
  the characters of the literal in order, the elements after them zero (the first
  of these is the literal's terminator), and a literal too long for the array cut
  at \<open>cap\<close> characters, as the compiler does with a warning.
\<close>

definition char_array_init :: "nat \<Rightarrow> string \<Rightarrow> byte list" where
  "char_array_init cap lit = take cap (map of_char lit @ replicate (cap - length lit) 0)"

text \<open>\<^verbatim>\<open>data_t data = { .id = "Hello world", .x = 12, .y = 34 };\<close>\<close>

definition start_data :: data_t where
  "start_data = \<lparr>id_buf = char_array_init 12 ''Hello world'', x = 12, y = 34\<rparr>"

text \<open>
  \<^verbatim>\<open>int _start()\<close>, with the address \<open>sp\<close> of its local \<^verbatim>\<open>data\<close>: the record is
  stored there, its address is passed to \<^verbatim>\<open>process\<close>, and the local is gone on
  return.
\<close>

definition start :: "addr \<Rightarrow> memory \<Rightarrow> int32 \<times> memory" where
  "start sp mem =
     (let mem1 = mem(sp \<mapsto> start_data);
          (r, mem2) = process sp mem1
      in (r, mem2(sp := None)))"

section \<open>Auxiliary facts\<close>

subsection \<open>Signed 32-bit arithmetic without overflow\<close>

lemma sint_succ:
  fixes w n :: int32
  assumes "w <s n"
  shows "sint (w + 1) = sint w + 1"
proof -
  have "sint w < sint n" using assms by (simp add: word_sless_alt)
  moreover have "sint n < 2 ^ 31" using sint_lt [of n] by simp
  moreover have "- (2 ^ 31) \<le> sint w" using sint_ge [of w] by simp
  ultimately have "signed_take_bit 31 (sint w + 1) = sint w + 1"
    by (intro signed_take_bit_int_eq_self) auto
  then show ?thesis by (simp add: sint_word_ariths)
qed

lemma sint_pred:
  fixes w :: int32
  assumes "1 <s w"
  shows "sint (w - 1) = sint w - 1"
proof -
  have "1 < sint w" using assms by (simp add: word_sless_alt)
  moreover have "sint w < 2 ^ 31" using sint_lt [of w] by simp
  ultimately have "signed_take_bit 31 (sint w - 1) = sint w - 1"
    by (intro signed_take_bit_int_eq_self) auto
  then show ?thesis by (simp add: sint_word_ariths)
qed

lemma sint_of_nat_small:
  assumes "m < 2 ^ 31"
  shows "sint (word_of_nat m :: int32) = int m"
proof -
  have "signed_take_bit 31 (int m) = int m"
    using assms by (intro signed_take_bit_int_eq_self) auto
  then show ?thesis by (simp add: signed_of_nat)
qed

subsection \<open>The loop body and the loop\<close>

text \<open>The body never fails: it assigns \<^verbatim>\<open>a\<close> before it reads it.\<close>

lemma fib_body_Inr:
  "fib_body s = Inr (s\<lparr>a := Some (b s), b := c s, c := b s + c s, i := i s + 1\<rparr>)"
  by (simp add: fib_body_def Let_def)

lemma fib_iter_Inr: "\<exists>s'. fib_iter k s = Inr s'"
  by (induction k arbitrary: s) (simp_all add: fib_body_Inr)

text \<open>
  The loop stops, after as many executions of the body as \<^verbatim>\<open>n\<close> exceeds \<^verbatim>\<open>i\<close>.
  The counter cannot overflow: it is incremented only while it is below \<^verbatim>\<open>n\<close>.
\<close>

lemma fib_loop_unroll:
  "fib_loop n s = Some (fib_iter (nat (sint n - sint (i s))) s)"
proof (induction "nat (sint n - sint (i s))" arbitrary: s)
  case 0
  then have "\<not> i s <s n" by (simp add: word_sless_alt)
  then show ?case using 0 by (subst fib_loop.simps) simp
next
  case (Suc k)
  then have lt: "i s <s n" by (simp add: word_sless_alt)
  let ?s' = "s\<lparr>a := Some (b s), b := c s, c := b s + c s, i := i s + 1\<rparr>"
  have "sint (i ?s') = sint (i s) + 1" using sint_succ [OF lt] by simp
  then have k: "k = nat (sint n - sint (i ?s'))" using Suc.hyps(2) by simp
  have "fib_loop n s = fib_loop n ?s'"
    using lt by (subst fib_loop.simps) (simp add: fib_body_Inr)
  also have "\<dots> = Some (fib_iter k ?s')"
    using Suc.hyps(1) [OF k] k by simp
  also have "fib_iter k ?s' = fib_iter (nat (sint n - sint (i s))) s"
    using Suc.hyps(2) [symmetric] by (simp add: fib_body_Inr)
  finally show ?case .
qed

lemma fib_iter_Suc_end:
  "fib_iter (Suc k) s = (case fib_iter k s of Inl e \<Rightarrow> Inl e | Inr s' \<Rightarrow> fib_body s')"
proof (induction k arbitrary: s)
  case 0
  show ?case by (cases "fib_body s") simp_all
next
  case (Suc k)
  show ?case
  proof (cases "fib_body s")
    case (Inl e)
    then show ?thesis by simp
  next
    case (Inr s')
    have "fib_iter (Suc (Suc k)) s = fib_iter (Suc k) s'"
      using Inr by simp
    also have "\<dots> = (case fib_iter k s' of Inl e \<Rightarrow> Inl e | Inr t \<Rightarrow> fib_body t)"
      by (rule Suc.IH)
    also have "fib_iter k s' = fib_iter (Suc k) s"
      using Inr by simp
    finally show ?thesis .
  qed
qed

text \<open>The locals after \<open>k\<close> executions of the body from the initial state.\<close>

lemma fib_iter_init:
  "fib_iter k fib_init =
     Inr \<lparr>a = (if k = 0 then None else Some (word_of_nat (seq_from 1 1 (k - 1)))),
          b = word_of_nat (seq_from 1 1 k),
          c = word_of_nat (seq_from 1 1 (Suc k)),
          i = word_of_nat (Suc k)\<rparr>"
proof (induction k)
  case 0
  show ?case by (simp add: fib_init_def)
next
  case (Suc k)
  show ?case
  proof (cases k)
    case 0
    then show ?thesis by (simp add: fib_init_def fib_body_Inr)
  next
    case (Suc j)
    show ?thesis
      unfolding fib_iter_Suc_end [of "Suc j", folded Suc] Suc.IH
      by (simp add: fib_body_Inr Suc add.commute)
  qed
qed

lemma fib_closed:
  "fib n = Some (Inr (word_of_nat (seq_from 1 1 (Suc (nat (sint n - 1))))))"
proof -
  have "fib_loop n fib_init = Some (fib_iter (nat (sint n - 1)) fib_init)"
    using fib_loop_unroll [of n fib_init] by (simp add: fib_init_def)
  then show ?thesis
    by (simp add: fib_def fib_iter_init)
qed

lemma fib_value:
  assumes "1 \<le>s n"
  shows "fib n = Some (Inr (word_of_nat (seq_from 1 1 (nat (sint n)))))"
proof -
  have "1 \<le> sint n" using assms by (simp add: word_sle_eq)
  then have "Suc (nat (sint n - 1)) = nat (sint n)" by simp
  then show ?thesis using fib_closed [of n] by simp
qed

subsection \<open>The terms that fit into an \<^verbatim>\<open>int\<close>\<close>

lemma seq_pair:
  "((\<lambda>(u, v). (v, u + v)) ^^ k) (int f1, int f2) =
     (int (seq_from f1 f2 (Suc k)), int (seq_from f1 f2 (Suc (Suc k))))"
  by (induction k) (simp_all add: add.commute)

lemma seq_46: "seq_from 1 1 46 = 1836311903"
proof -
  have "((\<lambda>(u, v). (v, u + v)) ^^ 45) (int 1, int 1) = (1836311903, 2971215073)"
    by code_simp
  then have "int (seq_from 1 1 (Suc 45)) = 1836311903"
    by (simp only: seq_pair prod.inject)
  then show ?thesis by simp
qed

lemma seq_mono_step: "seq_from 1 1 k \<le> seq_from 1 1 (Suc k)"
  by (induction "1::nat" "1::nat" k rule: seq_from.induct) simp_all

lemma seq_mono: "j \<le> k \<Longrightarrow> seq_from 1 1 j \<le> seq_from 1 1 k"
  by (rule lift_Suc_mono_le [of "seq_from 1 1"]) (rule seq_mono_step)

lemma seq_small: "k \<le> 46 \<Longrightarrow> seq_from 1 1 k < 2 ^ 31"
proof -
  assume "k \<le> 46"
  then have "seq_from 1 1 k \<le> 1836311903"
    using seq_mono [of k 46] by (simp only: seq_46)
  also have "(1836311903::nat) < 2 ^ 31" by simp
  finally show ?thesis .
qed

lemma fib_exact:
  assumes "1 \<le>s n" and "n \<le>s 46"
  shows "\<exists>r. fib n = Some (Inr r) \<and> sint r = int (seq_from 1 1 (nat (sint n)))"
proof -
  have "sint n \<le> 46" using assms(2) by (simp add: word_sle_eq)
  then have "seq_from 1 1 (nat (sint n)) < 2 ^ 31" by (intro seq_small) simp
  then show ?thesis
    using fib_value [OF assms(1)] by (simp add: sint_of_nat_small)
qed

subsection \<open>The runs and the function\<close>

lemma fib_run_determ: "fib_run n s r1 \<Longrightarrow> fib_run n s r2 \<Longrightarrow> r1 = r2"
proof (induction arbitrary: r2 rule: fib_run.induct)
  case (fib_run_exit s)
  from fib_run_exit.prems fib_run_exit.hyps show ?case
    by (cases rule: fib_run.cases) simp_all
next
  case (fib_run_fail s e)
  from fib_run_fail.prems fib_run_fail.hyps show ?case
    by (cases rule: fib_run.cases) simp_all
next
  case (fib_run_iter s s' r)
  note cond = fib_run_iter.hyps(1) and body = fib_run_iter.hyps(2) and IH = fib_run_iter.IH
  from fib_run_iter.prems show ?case
  proof (cases rule: fib_run.cases)
    case fib_run_exit
    with cond show ?thesis by simp
  next
    case (fib_run_fail e)
    with body show ?thesis by simp
  next
    case (fib_run_iter t)
    with body have "fib_run n s' r2" by simp
    then show ?thesis by (rule IH)
  qed
qed

lemma fib_run_loop: "fib_run n s r \<Longrightarrow> fib_loop n s = Some r"
  by (induction rule: fib_run.induct) (subst fib_loop.simps, simp)+

lemma fib_run_total: "fib_run n s (fib_iter (nat (sint n - sint (i s))) s)"
proof (induction "nat (sint n - sint (i s))" arbitrary: s)
  case 0
  then have "\<not> i s <s n" by (simp add: word_sless_alt)
  then show ?case using 0 by (simp add: fib_run_exit)
next
  case (Suc k)
  then have lt: "i s <s n" by (simp add: word_sless_alt)
  let ?s' = "s\<lparr>a := Some (b s), b := c s, c := b s + c s, i := i s + 1\<rparr>"
  have "sint (i ?s') = sint (i s) + 1" using sint_succ [OF lt] by simp
  then have k: "k = nat (sint n - sint (i ?s'))" using Suc.hyps(2) by simp
  have "fib_run n ?s' (fib_iter k ?s')"
    using Suc.hyps(1) [OF k] k by simp
  then have "fib_run n s (fib_iter k ?s')"
    using lt fib_body_Inr [of s] by (rule fib_run_iter [rotated 2])
  moreover have "fib_iter k ?s' = fib_iter (nat (sint n - sint (i s))) s"
    using Suc.hyps(2) [symmetric] by (simp add: fib_body_Inr)
  ultimately show ?case by simp
qed

text \<open>The relation and the function describe the same loop.\<close>

lemma fib_run_iff: "fib_run n s r \<longleftrightarrow> fib_loop n s = Some r"
proof
  assume "fib_run n s r"
  then show "fib_loop n s = Some r" by (rule fib_run_loop)
next
  assume "fib_loop n s = Some r"
  then have "r = fib_iter (nat (sint n - sint (i s))) s"
    by (simp add: fib_loop_unroll)
  then show "fib_run n s r" by (simp add: fib_run_total)
qed

lemma fib_returns_iff: "fib_returns n r \<longleftrightarrow> fib n = Some r"
  by (auto simp: fib_returns.simps fib_run_iff fib_def split: option.splits sum.splits)

section \<open>Properties\<close>

subsection \<open>The results at 9 and 5\<close>

text \<open>
  C1, as the specification states it: \<^verbatim>\<open>fib(9)\<close> is 21 and \<^verbatim>\<open>fib(5)\<close> is 3. The code
  returns neither of them.
\<close>

theorem fib_9_is_21_and_fib_5_is_3_counterexample:
  "fib 9 \<noteq> Some (Inr 21) \<and> fib 5 \<noteq> Some (Inr 3)"
  by code_simp

text \<open>
  C1, amended: \<^verbatim>\<open>fib(9)\<close> returns 34 and \<^verbatim>\<open>fib(5)\<close> returns 5, and these are the
  numbers that \<^verbatim>\<open>main\<close> prints.
\<close>

theorem fib_9_is_34_and_fib_5_is_5:
  "fib 9 = Some (Inr 34) \<and> fib 5 = Some (Inr 5) \<and>
   main [] = Some (Inr (0, ''9th fib: 34\<newline>5th fib: 5\<newline>''))"
  by code_simp

subsection \<open>The sequence that \<^verbatim>\<open>fib\<close> computes\<close>

text \<open>
  C2, as the specification states it: \<^verbatim>\<open>fib(n)\<close> is the \<open>n\<close>th term of the sequence
  with \<open>f(1) = 0\<close> and \<open>f(2) = 1\<close>, in particular \<^verbatim>\<open>fib(1)\<close> is 0. At \<open>n = 1\<close> the code
  returns 1.
\<close>

theorem fib_1_is_0_counterexample:
  "fib 1 \<noteq> Some (Inr (word_of_nat (seq_from 0 1 1))) \<and> fib 1 \<noteq> Some (Inr 0)"
  by code_simp

text \<open>
  C2, amended: for every \<open>n\<close> from 1 on, \<^verbatim>\<open>fib(n)\<close> returns the \<open>n\<close>th term of the
  sequence with \<open>f(1) = 1\<close>, \<open>f(2) = 1\<close> and \<open>f(k) = f(k-1) + f(k-2)\<close>, as an
  \<^verbatim>\<open>int\<close>: the term modulo \<open>2 ^ 32\<close>, and the term itself up to \<open>n = 46\<close>, the last
  one below \<open>2 ^ 31\<close>. In particular \<^verbatim>\<open>fib(1)\<close> and \<^verbatim>\<open>fib(2)\<close> are 1. At 0, where the
  sequence has no term, \<^verbatim>\<open>fib\<close> returns 1 as well.
\<close>

theorem fib_is_nth_term:
  "(1 \<le>s n \<longrightarrow> fib n = Some (Inr (word_of_nat (seq_from 1 1 (nat (sint n)))))) \<and>
   (1 \<le>s n \<and> n \<le>s 46 \<longrightarrow>
      (\<exists>r. fib n = Some (Inr r) \<and> sint r = int (seq_from 1 1 (nat (sint n))))) \<and>
   fib 1 = Some (Inr 1) \<and> fib 2 = Some (Inr 1) \<and> fib 0 = Some (Inr 1)"
proof -
  have "fib 1 = Some (Inr 1)" "fib 2 = Some (Inr 1)" "fib 0 = Some (Inr 1)"
    by code_simp+
  then show ?thesis
    using fib_value [of n] fib_exact [of n] by blast
qed

theorem fib_is_nth_term_witness:
  "(1::int32) \<le>s 9 \<and> (9::int32) \<le>s 46 \<and>
   fib 9 = Some (Inr (word_of_nat (seq_from 1 1 9))) \<and>
   (\<exists>r. fib 9 = Some (Inr r) \<and> sint r = int (seq_from 1 1 9)) \<and>
   seq_from 1 1 9 = 34"
proof -
  have "(1::int32) \<le>s 9" "(9::int32) \<le>s 46" by (simp_all add: word_sle_eq)
  moreover have "nat (sint (9::int32)) = 9" by simp
  moreover have "seq_from 1 1 9 = 34" by code_simp
  ultimately show ?thesis using fib_is_nth_term [of 9] by simp
qed

subsection \<open>\<^verbatim>\<open>process\<close>\<close>

text \<open>
  C3: \<^verbatim>\<open>process\<close> returns 0 for every address and every memory, whatever record
  the address refers to, and it computes nothing: the memory is left as it was.
  Called from \<^verbatim>\<open>_start\<close> with the address of the local record, it returns 0 too.
\<close>

theorem process_returns_0:
  "process data mem = (0, mem) \<and> fst (start sp mem) = 0"
  by (simp add: process_def start_def)

subsection \<open>The recurrence\<close>

text \<open>
  C4: for every \<open>k\<close> from 3 on, \<^verbatim>\<open>fib(k)\<close> is the sum of \<^verbatim>\<open>fib(k - 1)\<close> and
  \<^verbatim>\<open>fib(k - 2)\<close>: as \<^verbatim>\<open>int\<close>s for every \<open>k\<close>, and as integers up to \<open>k = 46\<close>, where
  no sum leaves the range of \<^verbatim>\<open>int\<close>.
\<close>

theorem fib_recurrence_holds:
  "3 \<le>s k \<Longrightarrow>
     \<exists>r r1 r2. fib k = Some (Inr r) \<and> fib (k - 1) = Some (Inr r1) \<and>
       fib (k - 2) = Some (Inr r2) \<and> r = r1 + r2 \<and>
       (k \<le>s 46 \<longrightarrow> sint r = sint r1 + sint r2)"
proof -
  assume k: "3 \<le>s k"
  have k3: "3 \<le> sint k" using k by (simp add: word_sle_eq)
  then have lt1: "1 <s k" by (simp add: word_sless_alt)
  have s1: "sint (k - 1) = sint k - 1" by (rule sint_pred [OF lt1])
  then have lt2: "1 <s k - 1" using k3 by (simp add: word_sless_alt)
  have "sint (k - 1 - 1) = sint (k - 1) - 1" by (rule sint_pred [OF lt2])
  then have s2: "sint (k - 2) = sint k - 2" using s1 by simp
  define m where "m = nat (sint k) - 3"
  have m: "nat (sint k) = Suc (Suc (Suc m))"
    using k3 by (simp add: m_def)
  have m1: "nat (sint (k - 1)) = Suc (Suc m)"
    using k3 s1 by (simp add: m_def)
  have m2: "nat (sint (k - 2)) = Suc m"
    using k3 s2 by (simp add: m_def)
  have le0: "1 \<le>s k" using k3 by (simp add: word_sle_eq)
  have le1: "1 \<le>s k - 1" using s1 k3 by (simp add: word_sle_eq)
  have le2: "1 \<le>s k - 2" using s2 k3 by (simp add: word_sle_eq)
  let ?t = "seq_from 1 1"
  have v: "fib k = Some (Inr (word_of_nat (?t (Suc (Suc (Suc m))))))"
    "fib (k - 1) = Some (Inr (word_of_nat (?t (Suc (Suc m)))))"
    "fib (k - 2) = Some (Inr (word_of_nat (?t (Suc m))))"
    using fib_value [OF le0] fib_value [OF le1] fib_value [OF le2]
    by (simp_all only: m m1 m2)
  have exact: "sint (word_of_nat (?t (Suc (Suc (Suc m)))) :: int32) =
      sint (word_of_nat (?t (Suc (Suc m))) :: int32) + sint (word_of_nat (?t (Suc m)) :: int32)"
    if "k \<le>s 46"
  proof -
    have "sint k \<le> 46" using that by (simp add: word_sle_eq)
    then have le: "Suc (Suc (Suc m)) \<le> 46" using m by linarith
    have "?t (Suc (Suc (Suc m))) < 2 ^ 31"
      using le by (rule seq_small)
    then have e3: "sint (word_of_nat (?t (Suc (Suc (Suc m)))) :: int32) = int (?t (Suc (Suc (Suc m))))"
      by (rule sint_of_nat_small)
    have "?t (Suc (Suc m)) < 2 ^ 31"
      using le by (intro seq_small) simp
    then have e2: "sint (word_of_nat (?t (Suc (Suc m))) :: int32) = int (?t (Suc (Suc m)))"
      by (rule sint_of_nat_small)
    have "?t (Suc m) < 2 ^ 31"
      using le by (intro seq_small) simp
    then have e1: "sint (word_of_nat (?t (Suc m)) :: int32) = int (?t (Suc m))"
      by (rule sint_of_nat_small)
    show ?thesis unfolding e3 e2 e1 by simp
  qed
  show ?thesis
    unfolding v using exact by simp
qed

theorem fib_recurrence_holds_witness:
  "(3::int32) \<le>s 5 \<and> (5::int32) \<le>s 46 \<and>
   fib 5 = Some (Inr 5) \<and> fib (5 - 1) = Some (Inr 3) \<and> fib (5 - 2) = Some (Inr 2) \<and>
   (5::int32) = 3 + 2 \<and> sint (5::int32) = sint (3::int32) + sint (2::int32)"
proof -
  have h: "(3::int32) \<le>s 5" by simp
  have "fib 5 = Some (Inr 5)" "fib (5 - 1) = Some (Inr 3)" "fib (5 - 2) = Some (Inr 2)"
    by code_simp+
  then show ?thesis using fib_recurrence_holds [OF h] by simp
qed

subsection \<open>The record of \<^verbatim>\<open>_start\<close>\<close>

text \<open>
  C5: the 12-byte buffer \<^verbatim>\<open>id\<close>, initialised by the 11 characters of
  \<^verbatim>\<open>"Hello world"\<close>, is exactly filled: it holds the 11 characters and then the
  terminator, so all 12 bytes have a value, the terminator is the last byte, and
  no character is cut off.
\<close>

theorem id_buffer_exactly_filled:
  "id_buf start_data = map of_char ''Hello world'' @ [0] \<and>
   length ''Hello world'' = 11 \<and>
   length (id_buf start_data) = 12 \<and>
   last (id_buf start_data) = 0 \<and>
   take 11 (id_buf start_data) = map of_char ''Hello world'' \<and>
   0 \<notin> set (take 11 (id_buf start_data))"
  by code_simp

subsection \<open>The output of \<^verbatim>\<open>main\<close>\<close>

text \<open>
  C6: a run of \<^verbatim>\<open>main\<close> ends with status 0 and adds exactly two lines to standard
  output and nothing else: \<^verbatim>\<open>9th fib: \<close> followed by the decimal rendering of
  what \<^verbatim>\<open>fib(9)\<close> returned, and \<^verbatim>\<open>5th fib: \<close> followed by that of \<^verbatim>\<open>fib(5)\<close>, each
  ended by a newline and with no newline inside.
\<close>

theorem main_writes_two_lines:
  "\<exists>r9 r5. fib 9 = Some (Inr r9) \<and> fib 5 = Some (Inr r5) \<and>
     main out0 = Some (Inr (0, out0 @ (''9th fib: '' @ dec_int (sint r9) @ ''\<newline>'')
                                     @ (''5th fib: '' @ dec_int (sint r5) @ ''\<newline>''))) \<and>
     CHR ''\<newline>'' \<notin> set (''9th fib: '' @ dec_int (sint r9)) \<and>
     CHR ''\<newline>'' \<notin> set (''5th fib: '' @ dec_int (sint r5))"
proof -
  have f9: "fib 9 = Some (Inr 34)" and f5: "fib 5 = Some (Inr 5)"
    by code_simp+
  have d9: "dec_int 34 = ''34''" and d5: "dec_int 5 = ''5''"
    by code_simp+
  have p9: "printf ''9th fib: %d\<newline>'' [34] = ''9th fib: 34\<newline>''"
    and p5: "printf ''5th fib: %d\<newline>'' [5] = ''5th fib: 5\<newline>''"
    by code_simp+
  have "main out0 = Some (Inr (0, out0 @ ''9th fib: 34\<newline>'' @ ''5th fib: 5\<newline>''))"
    by (simp add: main_def f9 f5 p9 p5 del: printf.simps)
  then show ?thesis
    unfolding f9 f5 by (simp add: d9 d5)
qed

subsection \<open>No failure, and termination\<close>

text \<open>
  C7: \<^verbatim>\<open>fib\<close> has no error condition. For every \<open>n\<close>, also 0 and the negative
  ones, it returns a number: it does not run forever and it does not fail.
\<close>

theorem fib_returns_normally:
  "(\<exists>r. fib n = Some (Inr r)) \<and> fib n \<noteq> None \<and> (\<forall>e. fib n \<noteq> Some (Inl e)) \<and>
   fib 0 = Some (Inr 1) \<and> fib (- 1) = Some (Inr 1)"
proof -
  have "fib 0 = Some (Inr 1)" "fib (- 1) = Some (Inr 1)" by code_simp+
  then show ?thesis by (simp add: fib_closed)
qed

text \<open>
  C8: the loop of \<^verbatim>\<open>fib\<close> terminates for every \<open>n\<close>, from every state. It executes
  the body as many times as \<^verbatim>\<open>n\<close> exceeds \<^verbatim>\<open>i\<close>, and no body fails; in \<^verbatim>\<open>fib(n)\<close>,
  where \<^verbatim>\<open>i\<close> starts at 1, that is \<open>n - 1\<close> times, or not at all when \<open>n\<close> is below 2.
  The state is the four locals throughout.
\<close>

theorem fib_loop_terminates:
  "fib_loop n s = Some (fib_iter (nat (sint n - sint (i s))) s) \<and>
   (\<exists>s'. fib_iter (nat (sint n - sint (i s))) s = Inr s') \<and>
   fib_loop n fib_init = Some (fib_iter (nat (sint n - 1)) fib_init) \<and>
   fib n \<noteq> None"
proof -
  have "fib_loop n fib_init = Some (fib_iter (nat (sint n - 1)) fib_init)"
    using fib_loop_unroll [of n fib_init] by (simp add: fib_init_def)
  then show ?thesis
    using fib_loop_unroll [of n s] fib_iter_Inr [of "nat (sint n - sint (i s))" s]
    by (simp add: fib_closed)
qed

subsection \<open>Determinism\<close>

text \<open>
  C9: two runs of \<^verbatim>\<open>fib\<close> on the same \<open>n\<close> return the same, and two runs of
  \<^verbatim>\<open>process\<close> on the same address return the same number, even in different
  memories.
\<close>

theorem runs_deterministic:
  "(fib_returns n r1 \<and> fib_returns n r2 \<longrightarrow> r1 = r2) \<and>
   fst (process data mem1) = fst (process data mem2)"
proof -
  have "r1 = r2" if h1: "fib_returns n r1" and h2: "fib_returns n r2"
  proof -
    obtain res1 where res1: "fib_run n fib_init res1"
      "r1 = (case res1 of Inl e \<Rightarrow> Inl e | Inr s \<Rightarrow> Inr (c s))"
      using h1 by (cases rule: fib_returns.cases) force+
    obtain res2 where res2: "fib_run n fib_init res2"
      "r2 = (case res2 of Inl e \<Rightarrow> Inl e | Inr s \<Rightarrow> Inr (c s))"
      using h2 by (cases rule: fib_returns.cases) force+
    have "res1 = res2" using res1(1) res2(1) by (rule fib_run_determ)
    then show ?thesis using res1(2) res2(2) by simp
  qed
  then show ?thesis by (simp add: process_def)
qed

theorem runs_deterministic_witness:
  "fib_returns 5 (Inr 5) \<and> fst (process 0 Map.empty) = fst (process 0 [0 \<mapsto> start_data])"
proof -
  have "fib 5 = Some (Inr 5)" by code_simp
  then have h: "fib_returns 5 (Inr 5)" by (simp add: fib_returns_iff)
  show ?thesis
    using h runs_deterministic [of 5 "Inr 5" "Inr 5" 0 Map.empty "[0 \<mapsto> start_data]"]
    by simp
qed

subsection \<open>The loop that is never entered\<close>

text \<open>
  C10: for every \<open>n\<close> up to 1, also 0 and the negative ones, the loop body is never
  executed: the loop ends in the state it started in, where \<^verbatim>\<open>a\<close> still has no
  value. \<^verbatim>\<open>fib\<close> returns 1, and no read of a local without a value happens.
\<close>

theorem fib_at_most_1:
  "n \<le>s 1 \<Longrightarrow>
     fib_loop n fib_init = Some (Inr fib_init) \<and> a fib_init = None \<and>
     fib n = Some (Inr 1) \<and> fib n \<noteq> Some (Inl UninitRead)"
proof -
  assume "n \<le>s 1"
  then have "\<not> i fib_init <s n"
    by (simp add: fib_init_def word_sle_eq word_sless_alt)
  then have "fib_loop n fib_init = Some (Inr fib_init)"
    by (subst fib_loop.simps) simp
  then show ?thesis by (simp add: fib_def fib_init_def)
qed

theorem fib_at_most_1_witness:
  "(0::int32) \<le>s 1 \<and> fib_loop 0 fib_init = Some (Inr fib_init) \<and> fib 0 = Some (Inr 1)"
proof -
  have h: "(0::int32) \<le>s 1" by (simp add: word_sle_eq)
  show ?thesis using h fib_at_most_1 [OF h] by simp
qed

end
